theory Spec2Isabelle
  imports
    Main
    "HOL-Library.Char_ord"
    "HOL-Library.List_Lexorder"
    "HOL-Library.Sublist"
    "HOL-Library.Word"
begin

section \<open>Paths: the operations of std::filesystem::path that the view uses\<close>

text \<open>
  A path is the native string it holds (POSIX: the separator is the slash, there is no root
  name). The functions below follow the operations of \<^verbatim>\<open>std::filesystem::path\<close> the
  source calls: \<^verbatim>\<open>filename\<close>, \<^verbatim>\<open>extension\<close>, \<^verbatim>\<open>stem\<close>, \<^verbatim>\<open>has_extension\<close>,
  \<^verbatim>\<open>parent_path\<close>, \<^verbatim>\<open>operator/\<close> and \<^verbatim>\<open>operator==\<close>.
\<close>

definition is_sep :: "char \<Rightarrow> bool" where
  "is_sep c = (c = CHR ''/'')"

text \<open>\<^verbatim>\<open>filename()\<close>: what follows the last separator; empty when the path ends in one.\<close>

definition filename :: "string \<Rightarrow> string" where
  "filename p = rev (takeWhile (\<lambda>c. \<not> is_sep c) (rev p))"

text \<open>The path up to and including its last separator (empty when there is none).\<close>

definition dir_prefix :: "string \<Rightarrow> string" where
  "dir_prefix p = rev (dropWhile (\<lambda>c. \<not> is_sep c) (rev p))"

definition strip_trailing_seps :: "string \<Rightarrow> string" where
  "strip_trailing_seps p = rev (dropWhile is_sep (rev p))"

text \<open>
  \<^verbatim>\<open>extension()\<close>: from the last period of the filename to its end; empty when the filename
  is \<^verbatim>\<open>.\<close> or \<^verbatim>\<open>..\<close>, has no period, or has its only period in front.
\<close>

definition extension :: "string \<Rightarrow> string" where
  "extension p =
     (let f = filename p;
          after_dot = takeWhile (\<lambda>c. c \<noteq> CHR ''.'') (rev f)
      in if f = ''.'' \<or> f = ''..'' \<or> CHR ''.'' \<notin> set f then []
         else if Suc (length after_dot) = length f then []
         else drop (length f - Suc (length after_dot)) f)"

definition stem :: "string \<Rightarrow> string" where
  "stem p = (let f = filename p in take (length f - length (extension p)) f)"

definition has_extension :: "string \<Rightarrow> bool" where
  "has_extension p = (extension p \<noteq> [])"

definition has_filename :: "string \<Rightarrow> bool" where
  "has_filename p = (filename p \<noteq> [])"

definition is_absolute :: "string \<Rightarrow> bool" where
  "is_absolute p = (case p of [] \<Rightarrow> False | c # _ \<Rightarrow> is_sep c)"

definition has_relative_path :: "string \<Rightarrow> bool" where
  "has_relative_path p = (dropWhile is_sep p \<noteq> [])"

text \<open>
  \<^verbatim>\<open>parent_path()\<close>: the path itself when it has no relative part; otherwise the path without
  its last element and the separators in front of it. When only the root directory is left,
  it is returned as written.
\<close>

definition parent_path :: "string \<Rightarrow> string" where
  "parent_path p =
     (if \<not> has_relative_path p then p
      else let d = dir_prefix p
           in if \<not> has_relative_path d then d else strip_trailing_seps d)"

text \<open>
  \<^verbatim>\<open>operator/\<close>: an absolute right operand replaces the left one; otherwise a separator is
  added when the left operand has a filename, then the right operand is appended.
\<close>

definition path_append :: "string \<Rightarrow> string \<Rightarrow> string" where
  "path_append p q =
     (if is_absolute q then q
      else if has_filename p then p @ ''/'' @ q
      else p @ q)"

text \<open>
  The elements of the relative part, as path iteration yields them: the names between runs
  of separators, and an empty element after a trailing separator.
\<close>

fun elems :: "bool \<Rightarrow> string \<Rightarrow> string \<Rightarrow> string list" where
  "elems after_sep cur [] = [cur]"
| "elems after_sep cur (c # cs) =
     (if is_sep c then (if after_sep then elems True [] cs else cur # elems True [] cs)
      else elems False (cur @ [c]) cs)"

definition relative_elems :: "string \<Rightarrow> string list" where
  "relative_elems p = (let r = dropWhile is_sep p in if r = [] then [] else elems False [] r)"

text \<open>\<^verbatim>\<open>operator==\<close>: the same root directory and the same elements.\<close>

definition path_eq :: "string \<Rightarrow> string \<Rightarrow> bool" where
  "path_eq p q = (is_absolute p = is_absolute q \<and> relative_elems p = relative_elems q)"

text \<open>\<^verbatim>\<open>std::string::substr(pos)\<close> raises \<^verbatim>\<open>std::out_of_range\<close> when \<open>pos\<close> is beyond the end.\<close>

definition substr :: "string \<Rightarrow> nat \<Rightarrow> string option" where
  "substr s pos = (if pos \<le> length s then Some (drop pos s) else None)"


section \<open>Data model\<close>

text \<open>
  Modelled from the spec: the declarations of \<^verbatim>\<open>WebObjectStorage\<close> are not among the sources.
  The view reads \<^verbatim>\<open>FileType::File\<close>, \<^verbatim>\<open>FileType::Directory\<close> and the fields \<^verbatim>\<open>.type\<close> and
  \<^verbatim>\<open>.size\<close> of an entry; the spec gives the size as an unsigned 64-bit integer.
\<close>

datatype FileType = File | Directory

record FileData =
  type :: FileType
  size_bytes :: "64 word"

text \<open>
  \<^verbatim>\<open>object_storage.files\<close>: an ordered map from path to file data (the source walks it with
  iterators and \<^verbatim>\<open>std::lower_bound\<close>; the spec has it ordered lexicographically by path),
  kept here as the list of its entries in iteration order. \<open>files_ok\<close> is the invariant of
  the ordered map: the keys are strictly increasing in the order of \<^verbatim>\<open>std::string\<close>, which
  compares bytes as unsigned values, a proper prefix being less.
\<close>

type_synonym Files = "(string \<times> FileData) list"

definition keys :: "Files \<Rightarrow> string list" where
  "keys fs = map fst fs"

definition files_ok :: "Files \<Rightarrow> bool" where
  "files_ok fs = sorted_wrt (<) (keys fs)"

definition contains :: "Files \<Rightarrow> string \<Rightarrow> bool" where
  "contains fs path = (map_of fs path \<noteq> None)"

text \<open>Trace-level log lines, by their format string.\<close>

datatype log_event =
    Cannot_load_disk_metadata string  \<comment> \<open>\<^verbatim>\<open>"Cannot load disk metadata. Error: {}"\<close>\<close>
  | Iterate_directory string nat      \<comment> \<open>\<^verbatim>\<open>"Iterate directory {} with {} files"\<close>\<close>

text \<open>
  The object storage the view refers to: its URL and its files, and, to make the effects
  of the view observable, the URLs \<^verbatim>\<open>initialize\<close> has been called with and the trace log.
\<close>

record WebObjectStorage =
  url :: string
  files :: Files
  initialize_calls :: "string list"
  trace_log :: "log_event list"

datatype error_code = NOT_IMPLEMENTED | FILE_DOESNT_EXIST | NETWORK_ERROR

text \<open>
  Exceptions: \<^verbatim>\<open>DB::Exception\<close> with its code and message, \<^verbatim>\<open>std::out_of_range\<close> (raised by
  \<^verbatim>\<open>std::map::at\<close> and \<^verbatim>\<open>std::string::substr\<close>), and a value for the example deployment to
  raise from \<^verbatim>\<open>throwNotAllowed\<close>.
\<close>

datatype exn =
    Exception error_code string
  | std_out_of_range
  | Not_allowed

text \<open>What a call returns: the exception it raises or its value, and the storage after it.\<close>

type_synonym 'a io = "(exn + 'a) \<times> WebObjectStorage"

text \<open>
  What the view takes from outside its own source file:
  \<^item> \<open>initialize\<close>: \<^verbatim>\<open>WebObjectStorage::initialize\<close>, the fetcher. Given the storage and a URL
    it returns the files after the call and, when it throws, the message of the exception;
  \<^item> \<open>query_context\<close>: whether the current thread is initialized and has a query context;
  \<^item> \<open>escapeForFileName\<close> and \<open>parentPath\<close>: the helpers of those names;
  \<^item> \<open>throwNotAllowed\<close>: the exception \<^verbatim>\<open>WebObjectStorage::throwNotAllowed\<close> raises;
  \<^item> \<open>ndebug\<close>: whether the build defines \<^verbatim>\<open>NDEBUG\<close>.
\<close>

record web_env =
  initialize :: "WebObjectStorage \<Rightarrow> string \<Rightarrow> string option \<times> Files"
  query_context :: bool
  escapeForFileName :: "string \<Rightarrow> string"
  parentPath :: "string \<Rightarrow> string"
  throwNotAllowed :: exn
  ndebug :: bool

text \<open>
  Modelled from the spec: \<^verbatim>\<open>StoredObject\<close> and \<^verbatim>\<open>StoredObject::create\<close> are not among the
  sources; the spec gives the descriptor as key, size and the remote flag, built from the
  second, third and fourth argument of \<^verbatim>\<open>create\<close>.
\<close>

record StoredObject =
  key :: string
  object_size :: "64 word"
  is_remote :: bool

definition StoredObject_create :: "string \<Rightarrow> 64 word \<Rightarrow> bool \<Rightarrow> StoredObject" where
  "StoredObject_create remote_path sz remote =
     \<lparr>key = remote_path, object_size = sz, is_remote = remote\<rparr>"

text \<open>
  Modelled from the spec: \<^verbatim>\<open>startsWith(s, prefix)\<close> is not among the sources; the spec reads
  it as "the key starts with the path".
\<close>

definition startsWith :: "string \<Rightarrow> string \<Rightarrow> bool" where
  "startsWith s pre = prefix pre s"

section \<open>The view\<close>

subsection \<open>The lower bound\<close>

text \<open>
  The binary search of \<^verbatim>\<open>std::lower_bound\<close> over the entries, with the comparator of the
  source, \<^verbatim>\<open>file.first < path_\<close>. Positions are indices; \<open>length fs\<close> is \<^verbatim>\<open>end()\<close>.
\<close>

function lower_bound_loop :: "Files \<Rightarrow> string \<Rightarrow> nat \<Rightarrow> nat \<Rightarrow> nat" where
  "lower_bound_loop fs pth first len =
     (if len = 0 then first
      else let half = len div 2; middle = first + half
           in if fst (fs ! middle) < pth
              then lower_bound_loop fs pth (middle + 1) (len - half - 1)
              else lower_bound_loop fs pth first half)"
  by pat_completeness auto
termination
  by (relation "measure (\<lambda>(fs, pth, first, len). len)") auto

definition lower_bound :: "Files \<Rightarrow> string \<Rightarrow> nat" where
  "lower_bound fs pth = lower_bound_loop fs pth 0 (length fs)"

subsection \<open>initializeIfNeeded\<close>

text \<open>
  \<open>throw_on_error\<close> is optional. A call that leaves it out passes \<open>None\<close>: the default is
  declared in the header, which is not among the sources, and the spec has such calls run
  with the flag unset.
\<close>

definition initializeIfNeeded ::
  "web_env \<Rightarrow> WebObjectStorage \<Rightarrow> string \<Rightarrow> bool option \<Rightarrow> bool io" where
  "initializeIfNeeded env s path throw_on_error =
     (if map_of (files s) path = None then
        (let u = path_append (url s) path;
             (failure, files') = initialize env s u;
             s' = s\<lparr>files := files', initialize_calls := initialize_calls s @ [u]\<rparr>
         in case failure of
              None \<Rightarrow> (Inr True, s')
            | Some message \<Rightarrow>
                (let can_throw =
                       (case throw_on_error of Some b \<Rightarrow> b | None \<Rightarrow> query_context env)
                 in if can_throw
                    then (Inl (Exception NETWORK_ERROR
                                 (''Cannot load disk metadata. Error: '' @ message)), s')
                    else (Inr False,
                          s'\<lparr>trace_log := trace_log s' @ [Cannot_load_disk_metadata message]\<rparr>)))
      else (Inr True, s))"

subsection \<open>exists\<close>

text \<open>
  \<open>exists_lookup\<close> is the body of \<open>exists\<close> after the lazy initialization, on the files it
  then finds.
\<close>

definition exists_lookup :: "Files \<Rightarrow> string \<Rightarrow> bool" where
  "exists_lookup fs path =
     (if fs = [] then False
      else if contains fs path then True
      else let it = lower_bound fs path
           in if it = length fs then False
              else if startsWith (fst (fs ! it)) path
                      \<or> (it \<noteq> 0 \<and> startsWith (fst (fs ! (it - 1))) path)
                   then True
                   else False)"

definition exists :: "web_env \<Rightarrow> WebObjectStorage \<Rightarrow> string \<Rightarrow> bool io" where
  "exists env s path =
     (let fs_path = (if has_extension path then parent_path path else path)
      in case initializeIfNeeded env s fs_path (Some False) of
           (Inl e, s1) \<Rightarrow> (Inl e, s1)
         | (Inr _, s1) \<Rightarrow> (Inr (exists_lookup (files s1) path), s1))"

subsection \<open>assertExists\<close>

text \<open>The list of known files a debug build puts into the message.\<close>

fun all_files_loop :: "Files \<Rightarrow> string \<Rightarrow> string" where
  "all_files_loop [] all_files = all_files"
| "all_files_loop ((file, _) # rest) all_files =
     all_files_loop rest ((if all_files \<noteq> [] then all_files @ '', '' else all_files) @ file)"

definition no_path_message :: "web_env \<Rightarrow> Files \<Rightarrow> string \<Rightarrow> string" where
  "no_path_message env fs path =
     (if ndebug env then ''There is no path '' @ path
      else ''There is no path '' @ path @ '' (available files: '' @ all_files_loop fs [] @ '')'')"

definition assertExists :: "web_env \<Rightarrow> WebObjectStorage \<Rightarrow> string \<Rightarrow> unit io" where
  "assertExists env s path =
     (case initializeIfNeeded env s path None of
        (Inl e, s1) \<Rightarrow> (Inl e, s1)
      | (Inr _, s1) \<Rightarrow>
          (case exists env s1 path of
             (Inl e, s2) \<Rightarrow> (Inl e, s2)
           | (Inr found, s2) \<Rightarrow>
               if \<not> found
               then (Inl (Exception FILE_DOESNT_EXIST (no_path_message env (files s2) path)), s2)
               else (Inr (), s2)))"

subsection \<open>isFile, isDirectory, getFileSize\<close>

text \<open>\<^verbatim>\<open>files.at(path)\<close> raises \<^verbatim>\<open>std::out_of_range\<close> when the path is not a key.\<close>

definition at :: "Files \<Rightarrow> string \<Rightarrow> exn + FileData" where
  "at fs path = (case map_of fs path of None \<Rightarrow> Inl std_out_of_range | Some fd \<Rightarrow> Inr fd)"

definition isFile :: "web_env \<Rightarrow> WebObjectStorage \<Rightarrow> string \<Rightarrow> bool io" where
  "isFile env s path =
     (case assertExists env s path of
        (Inl e, s1) \<Rightarrow> (Inl e, s1)
      | (Inr _, s1) \<Rightarrow>
          (case at (files s1) path of
             Inl e \<Rightarrow> (Inl e, s1)
           | Inr fd \<Rightarrow> (Inr (type fd = File), s1)))"

definition isDirectory :: "web_env \<Rightarrow> WebObjectStorage \<Rightarrow> string \<Rightarrow> bool io" where
  "isDirectory env s path =
     (case assertExists env s path of
        (Inl e, s1) \<Rightarrow> (Inl e, s1)
      | (Inr _, s1) \<Rightarrow>
          (case at (files s1) path of
             Inl e \<Rightarrow> (Inl e, s1)
           | Inr fd \<Rightarrow> (Inr (type fd = Directory), s1)))"

definition getFileSize :: "web_env \<Rightarrow> WebObjectStorage \<Rightarrow> string \<Rightarrow> (64 word) io" where
  "getFileSize env s path =
     (case assertExists env s path of
        (Inl e, s1) \<Rightarrow> (Inl e, s1)
      | (Inr _, s1) \<Rightarrow>
          (case at (files s1) path of
             Inl e \<Rightarrow> (Inl e, s1)
           | Inr fd \<Rightarrow> (Inr (size_bytes fd), s1)))"

subsection \<open>getStorageObjects\<close>

definition getStorageObjects ::
  "web_env \<Rightarrow> WebObjectStorage \<Rightarrow> string \<Rightarrow> (StoredObject list) io" where
  "getStorageObjects env s path =
     (case assertExists env s path of
        (Inl e, s1) \<Rightarrow> (Inl e, s1)
      | (Inr _, s1) \<Rightarrow>
          (let fs_path = path_append (url s1) path;
               remote_path = path_append (parent_path fs_path)
                               (escapeForFileName env (stem fs_path) @ extension fs_path)
           in case substr remote_path (length (url s1)) of
                None \<Rightarrow> (Inl std_out_of_range, s1)
              | Some remote_path' \<Rightarrow>
                  (case at (files s1) path of
                     Inl e \<Rightarrow> (Inl e, s1)
                   | Inr fd \<Rightarrow> (Inr [StoredObject_create remote_path' (size_bytes fd) True], s1))))"

subsection \<open>listDirectory\<close>

fun listDirectory_loop :: "Files \<Rightarrow> string \<Rightarrow> string list \<Rightarrow> string list" where
  "listDirectory_loop [] path result = result"
| "listDirectory_loop ((file_path, _) # rest) path result =
     listDirectory_loop rest path
       (if prefix path file_path then result @ [file_path] else result)"

definition listDirectory :: "web_env \<Rightarrow> WebObjectStorage \<Rightarrow> string \<Rightarrow> (string list) io" where
  "listDirectory env s path = (Inr (listDirectory_loop (files s) path []), s)"

subsection \<open>iterateDirectory\<close>

text \<open>
  The iterator the source returns owns the vector of paths it was built from; it is modelled
  as that vector.
\<close>

fun iterateDirectory_loop :: "web_env \<Rightarrow> Files \<Rightarrow> string \<Rightarrow> string list \<Rightarrow> string list" where
  "iterateDirectory_loop env [] path dir_file_paths = dir_file_paths"
| "iterateDirectory_loop env ((file_path, _) # rest) path dir_file_paths =
     iterateDirectory_loop env rest path
       (if path_eq (path_append (parentPath env file_path) []) (path_append path [])
        then dir_file_paths @ [file_path] else dir_file_paths)"

definition iterateDirectory ::
  "web_env \<Rightarrow> WebObjectStorage \<Rightarrow> string \<Rightarrow> (string list) io" where
  "iterateDirectory env s path =
     (case initializeIfNeeded env s path None of
        (Inl e, s1) \<Rightarrow> (Inl e, s1)
      | (Inr initialized, s1) \<Rightarrow>
          if \<not> initialized then (Inr [], s1)
          else
            (case assertExists env s1 path of
               (Inl e, s2) \<Rightarrow> (Inl e, s2)
             | (Inr _, s2) \<Rightarrow>
                 (let dir_file_paths = iterateDirectory_loop env (files s2) path []
                  in (Inr dir_file_paths,
                      s2\<lparr>trace_log := trace_log s2
                            @ [Iterate_directory path (length dir_file_paths)]\<rparr>))))"

section \<open>The transaction\<close>

text \<open>
  The transaction holds a reference to the view; each of its operations is given the storage
  behind that view and returns it with its result. The arguments are those of the source,
  which names none of them.
\<close>

definition writeStringToFile :: "web_env \<Rightarrow> string \<Rightarrow> string \<Rightarrow> WebObjectStorage \<Rightarrow> unit io" where
  "writeStringToFile env path data s = (Inl (throwNotAllowed env), s)"

definition setLastModified :: "web_env \<Rightarrow> string \<Rightarrow> int \<Rightarrow> WebObjectStorage \<Rightarrow> unit io" where
  "setLastModified env path timestamp s = (Inl (throwNotAllowed env), s)"

definition unlinkFile :: "web_env \<Rightarrow> string \<Rightarrow> WebObjectStorage \<Rightarrow> unit io" where
  "unlinkFile env path s = (Inl (throwNotAllowed env), s)"

definition removeRecursive :: "web_env \<Rightarrow> string \<Rightarrow> WebObjectStorage \<Rightarrow> unit io" where
  "removeRecursive env path s = (Inl (throwNotAllowed env), s)"

definition removeDirectory :: "web_env \<Rightarrow> string \<Rightarrow> WebObjectStorage \<Rightarrow> unit io" where
  "removeDirectory env path s = (Inl (throwNotAllowed env), s)"

definition moveFile :: "web_env \<Rightarrow> string \<Rightarrow> string \<Rightarrow> WebObjectStorage \<Rightarrow> unit io" where
  "moveFile env path_from path_to s = (Inl (throwNotAllowed env), s)"

definition moveDirectory :: "web_env \<Rightarrow> string \<Rightarrow> string \<Rightarrow> WebObjectStorage \<Rightarrow> unit io" where
  "moveDirectory env path_from path_to s = (Inl (throwNotAllowed env), s)"

definition replaceFile :: "web_env \<Rightarrow> string \<Rightarrow> string \<Rightarrow> WebObjectStorage \<Rightarrow> unit io" where
  "replaceFile env path_from path_to s = (Inl (throwNotAllowed env), s)"

definition setReadOnly :: "web_env \<Rightarrow> string \<Rightarrow> WebObjectStorage \<Rightarrow> unit io" where
  "setReadOnly env path s = (Inl (throwNotAllowed env), s)"

definition createHardLink :: "web_env \<Rightarrow> string \<Rightarrow> string \<Rightarrow> WebObjectStorage \<Rightarrow> unit io" where
  "createHardLink env path_from path_to s = (Inl (throwNotAllowed env), s)"

definition addBlobToMetadata ::
  "web_env \<Rightarrow> string \<Rightarrow> string \<Rightarrow> 64 word \<Rightarrow> WebObjectStorage \<Rightarrow> unit io" where
  "addBlobToMetadata env path blob_name size_in_bytes s = (Inl (throwNotAllowed env), s)"

definition unlinkMetadata :: "web_env \<Rightarrow> string \<Rightarrow> WebObjectStorage \<Rightarrow> unit io" where
  "unlinkMetadata env path s = (Inl (throwNotAllowed env), s)"

definition createDirectory :: "web_env \<Rightarrow> string \<Rightarrow> WebObjectStorage \<Rightarrow> unit io" where
  "createDirectory env path s = (Inr (), s)"

definition createDirectoryRecursive :: "web_env \<Rightarrow> string \<Rightarrow> WebObjectStorage \<Rightarrow> unit io" where
  "createDirectoryRecursive env path s = (Inr (), s)"

definition createEmptyMetadataFile :: "web_env \<Rightarrow> string \<Rightarrow> WebObjectStorage \<Rightarrow> unit io" where
  "createEmptyMetadataFile env path s = (Inr (), s)"

definition createMetadataFile ::
  "web_env \<Rightarrow> string \<Rightarrow> string \<Rightarrow> 64 word \<Rightarrow> WebObjectStorage \<Rightarrow> unit io" where
  "createMetadataFile env path blob_name size_in_bytes s = (Inr (), s)"

definition commit :: "web_env \<Rightarrow> WebObjectStorage \<Rightarrow> unit io" where
  "commit env s = (Inr (), s)"

definition chmod :: "web_env \<Rightarrow> string \<Rightarrow> 32 word \<Rightarrow> WebObjectStorage \<Rightarrow> unit io" where
  "chmod env path mode s =
     (Inl (Exception NOT_IMPLEMENTED
        ''chmod is not implemented for MetadataStorageFromStaticFilesWebServer''), s)"

text \<open>A call of a write-side operation of the transaction, with its arguments.\<close>

datatype transaction_call =
    WriteStringToFile string string
  | SetLastModified string int
  | UnlinkFile string
  | RemoveRecursive string
  | RemoveDirectory string
  | MoveFile string string
  | MoveDirectory string string
  | ReplaceFile string string
  | SetReadOnly string
  | CreateHardLink string string
  | AddBlobToMetadata string string "64 word"
  | UnlinkMetadata string
  | CreateDirectory string
  | CreateDirectoryRecursive string
  | CreateEmptyMetadataFile string
  | CreateMetadataFile string string "64 word"
  | Commit
  | Chmod string "32 word"

fun run_call :: "web_env \<Rightarrow> transaction_call \<Rightarrow> WebObjectStorage \<Rightarrow> unit io" where
  "run_call env (WriteStringToFile p d) = writeStringToFile env p d"
| "run_call env (SetLastModified p t) = setLastModified env p t"
| "run_call env (UnlinkFile p) = unlinkFile env p"
| "run_call env (RemoveRecursive p) = removeRecursive env p"
| "run_call env (RemoveDirectory p) = removeDirectory env p"
| "run_call env (MoveFile p q) = moveFile env p q"
| "run_call env (MoveDirectory p q) = moveDirectory env p q"
| "run_call env (ReplaceFile p q) = replaceFile env p q"
| "run_call env (SetReadOnly p) = setReadOnly env p"
| "run_call env (CreateHardLink p q) = createHardLink env p q"
| "run_call env (AddBlobToMetadata p b n) = addBlobToMetadata env p b n"
| "run_call env (UnlinkMetadata p) = unlinkMetadata env p"
| "run_call env (CreateDirectory p) = createDirectory env p"
| "run_call env (CreateDirectoryRecursive p) = createDirectoryRecursive env p"
| "run_call env (CreateEmptyMetadataFile p) = createEmptyMetadataFile env p"
| "run_call env (CreateMetadataFile p b n) = createMetadataFile env p b n"
| "run_call env Commit = commit env"
| "run_call env (Chmod p m) = chmod env p m"

text \<open>The operations that are no-ops, and those that end in \<^verbatim>\<open>throwNotAllowed\<close>.\<close>

fun is_noop :: "transaction_call \<Rightarrow> bool" where
  "is_noop (CreateDirectory _) = True"
| "is_noop (CreateDirectoryRecursive _) = True"
| "is_noop (CreateEmptyMetadataFile _) = True"
| "is_noop (CreateMetadataFile _ _ _) = True"
| "is_noop Commit = True"
| "is_noop _ = False"

fun is_chmod :: "transaction_call \<Rightarrow> bool" where
  "is_chmod (Chmod _ _) = True"
| "is_chmod _ = False"

section \<open>Definitions that follow the specification\<close>

text \<open>
  The position \<^verbatim>\<open>lower_bound\<close> is specified to return on an ordered index: that of the first
  entry whose key is not less than the path, the length of the index when there is none.
\<close>

definition lower_bound_spec :: "Files \<Rightarrow> string \<Rightarrow> nat" where
  "lower_bound_spec fs p = length (takeWhile (\<lambda>k. k < p) (keys fs))"

text \<open>The probe path of \<open>exists\<close>: the directory of a path with an extension, else the path.\<close>

definition probe_path :: "string \<Rightarrow> string" where
  "probe_path p = (if has_extension p then parent_path p else p)"

section \<open>An example deployment\<close>

text \<open>
  The first end-to-end scenario of the specification: the base URL is \<^verbatim>\<open>https://h/r\<close>, and
  the fetcher, asked for the root or for the directory \<^verbatim>\<open>t\<close> under it, delivers the
  directory \<^verbatim>\<open>t\<close> and the file \<^verbatim>\<open>t/a.bin\<close> of 100 bytes; asked for anything else it fails
  and leaves the files as they are. File names need no escaping here, the parent path of a
  path is its \<^verbatim>\<open>parent_path\<close> with a trailing separator, and \<open>Not_allowed\<close> stands for the
  exception of \<^verbatim>\<open>throwNotAllowed\<close>.
\<close>

definition demo_files :: Files where
  "demo_files =
     [(''t'', \<lparr>type = Directory, size_bytes = 0\<rparr>),
      (''t/a.bin'', \<lparr>type = File, size_bytes = 100\<rparr>)]"

definition demo_initialize :: "WebObjectStorage \<Rightarrow> string \<Rightarrow> string option \<times> Files" where
  "demo_initialize s u =
     (if u = ''https://h/r/'' \<or> u = ''https://h/r/t'' then (None, demo_files)
      else (Some ''Timeout'', files s))"

definition demo_env :: "bool \<Rightarrow> web_env" where
  "demo_env in_query =
     \<lparr>initialize = demo_initialize,
      query_context = in_query,
      escapeForFileName = (\<lambda>s. s),
      parentPath = (\<lambda>p. path_append (parent_path p) []),
      throwNotAllowed = Not_allowed,
      ndebug = True\<rparr>"

definition demo_storage :: "Files \<Rightarrow> WebObjectStorage" where
  "demo_storage fs =
     \<lparr>url = ''https://h/r'', files = fs, initialize_calls = [], trace_log = []\<rparr>"

text \<open>The same deployment with the server out of reach: every fetch fails.\<close>

definition failing_initialize :: "WebObjectStorage \<Rightarrow> string \<Rightarrow> string option \<times> Files" where
  "failing_initialize s u = (Some ''Timeout'', files s)"

definition offline_env :: "bool \<Rightarrow> web_env" where
  "offline_env in_query = (demo_env in_query)\<lparr>initialize := failing_initialize\<rparr>"

section \<open>The binary search finds the lower bound\<close>

text \<open>
  The search stays inside the range it is given, whatever the entries are, so every entry the
  model reads with \<open>!\<close> is there.
\<close>

lemma lower_bound_loop_range:
  "first + len \<le> length fs \<Longrightarrow>
   first \<le> lower_bound_loop fs p first len \<and> lower_bound_loop fs p first len \<le> first + len"
proof (induction fs p first len rule: lower_bound_loop.induct)
  case (1 fs p first len)
  show ?case
  proof (cases "len = 0")
    case True
    then show ?thesis by simp
  next
    case False
    define half where "half = len div 2"
    define middle where "middle = first + half"
    from False have hl: "half < len" by (simp add: half_def)
    show ?thesis
    proof (cases "fst (fs ! middle) < p")
      case True
      have "middle + 1 + (len - half - 1) \<le> length fs"
        using "1.prems" hl by (simp add: middle_def)
      moreover have "lower_bound_loop fs p first len
                       = lower_bound_loop fs p (middle + 1) (len - half - 1)"
        using False True by (subst lower_bound_loop.simps) (simp add: Let_def half_def middle_def)
      ultimately show ?thesis
        using "1.IH"(1) [OF False half_def middle_def True] hl by (simp add: middle_def)
    next
      case nl: False
      have "first + half \<le> length fs" using "1.prems" hl by simp
      moreover have "lower_bound_loop fs p first len = lower_bound_loop fs p first half"
        using False nl by (subst lower_bound_loop.simps) (simp add: Let_def half_def middle_def)
      ultimately show ?thesis
        using "1.IH"(2) [OF False half_def middle_def nl] hl by simp
    qed
  qed
qed

lemma lower_bound_le: "lower_bound fs p \<le> length fs"
  using lower_bound_loop_range [of 0 "length fs" fs p] by (simp add: lower_bound_def)
lemma keys_nth: "i < length fs \<Longrightarrow> keys fs ! i = fst (fs ! i)"
  by (simp add: keys_def)

lemma files_ok_mono:
  assumes "files_ok fs" "i \<le> j" "j < length fs"
  shows "fst (fs ! i) \<le> fst (fs ! j)"
proof (cases "i = j")
  case True then show ?thesis by simp
next
  case False
  with assms have "i < j" by simp
  with assms have "keys fs ! i < keys fs ! j"
    by (simp add: files_ok_def keys_def sorted_wrt_iff_nth_less)
  with assms show ?thesis by (simp add: keys_nth)
qed

lemma lower_bound_loop_inv:
  assumes "files_ok fs" "first + len \<le> length fs"
    and "\<forall>i<first. fst (fs ! i) < p"
    and "\<forall>i. first + len \<le> i \<and> i < length fs \<longrightarrow> \<not> fst (fs ! i) < p"
  shows "lower_bound_loop fs p first len = lower_bound_spec fs p"
  using assms
proof (induction fs p first len rule: lower_bound_loop.induct)
  case (1 fs p first len)
  show ?case
  proof (cases "len = 0")
    case True
    have "takeWhile (\<lambda>k. k < p) (keys fs) = take first (keys fs)"
    proof (rule takeWhile_eq_take_P_nth)
      fix i assume "i < first" "i < length (keys fs)"
      with "1.prems" show "keys fs ! i < p" by (simp add: keys_def)
    next
      assume "first < length (keys fs)"
      with "1.prems" True show "\<not> keys fs ! first < p" by (simp add: keys_def)
    qed
    with "1.prems" True show ?thesis
      by (simp add: lower_bound_spec_def keys_def)
  next
    case False
    define half where "half = len div 2"
    define middle where "middle = first + half"
    from False have hl: "half < len" by (simp add: half_def)
    with "1.prems" have ml: "middle < length fs" by (simp add: middle_def)
    show ?thesis
    proof (cases "fst (fs ! middle) < p")
      case True
      have a: "\<forall>i<middle + 1. fst (fs ! i) < p"
      proof (intro allI impI)
        fix i assume "i < middle + 1"
        then have "fst (fs ! i) \<le> fst (fs ! middle)"
          using files_ok_mono [OF "1.prems"(1) _ ml, of i] by simp
        with True show "fst (fs ! i) < p" by simp
      qed
      have b: "middle + 1 + (len - half - 1) \<le> length fs"
        using "1.prems"(2) hl by (simp add: middle_def)
      have c: "\<forall>i. middle + 1 + (len - half - 1) \<le> i \<and> i < length fs \<longrightarrow> \<not> fst (fs ! i) < p"
        using "1.prems"(4) hl by (simp add: middle_def)
      have "lower_bound_loop fs p (middle + 1) (len - half - 1) = lower_bound_spec fs p"
        using "1.IH"(1) [OF False half_def middle_def True "1.prems"(1) b a c] .
      with False True show ?thesis
        by (subst lower_bound_loop.simps) (simp add: Let_def half_def middle_def)
    next
      case nl: False
      have b: "first + half \<le> length fs" using ml by (simp add: middle_def)
      have c: "\<forall>i. first + half \<le> i \<and> i < length fs \<longrightarrow> \<not> fst (fs ! i) < p"
      proof (intro allI impI)
        fix i assume h: "first + half \<le> i \<and> i < length fs"
        then have "fst (fs ! middle) \<le> fst (fs ! i)"
          using files_ok_mono [OF "1.prems"(1), of middle i] by (simp add: middle_def)
        with nl show "\<not> fst (fs ! i) < p" by auto
      qed
      have "lower_bound_loop fs p first half = lower_bound_spec fs p"
        using "1.IH"(2) [OF False half_def middle_def nl "1.prems"(1) b "1.prems"(3) c] .
      with False nl show ?thesis
        by (subst lower_bound_loop.simps) (simp add: Let_def half_def middle_def)
    qed
  qed
qed

lemma lower_bound_eq_spec: "files_ok fs \<Longrightarrow> lower_bound fs p = lower_bound_spec fs p"
  unfolding lower_bound_def by (rule lower_bound_loop_inv) auto

section \<open>Existence\<close>

lemma initializeIfNeeded_no_throw:
  "\<exists>b. fst (initializeIfNeeded env s q (Some False)) = Inr b"
  by (auto simp: initializeIfNeeded_def Let_def split: prod.splits option.splits)

lemma exists_path_eq:
  "exists env s p =
     (let s1 = snd (initializeIfNeeded env s (probe_path p) (Some False))
      in (Inr (exists_lookup (files s1) p), s1))"
proof -
  obtain r s1 where r: "initializeIfNeeded env s (probe_path p) (Some False) = (r, s1)"
    by (cases "initializeIfNeeded env s (probe_path p) (Some False)")
  with initializeIfNeeded_no_throw [of env s "probe_path p"] obtain b where "r = Inr b"
    by auto
  with r show ?thesis
    by (simp add: exists_def probe_path_def)
qed

lemma prefix_imp_le: "prefix p k \<Longrightarrow> p \<le> (k :: 'a :: linorder list)"
proof (induction p arbitrary: k)
  case Nil
  then show ?case by simp
next
  case (Cons x p)
  then show ?case by (cases k) auto
qed

lemma prefix_between:
  fixes p m k :: "'a :: linorder list"
  shows "prefix p k \<Longrightarrow> p \<le> m \<Longrightarrow> m \<le> k \<Longrightarrow> prefix p m"
proof (induction p arbitrary: m k)
  case Nil
  then show ?case by simp
next
  case (Cons x p)
  then obtain k' where k: "k = x # k'" "prefix p k'" by (cases k) auto
  from Cons.prems(2) obtain y m' where m: "m = y # m'" by (cases m) auto
  with Cons.prems k have "y = x" "p \<le> m'" "m' \<le> k'" by auto
  with Cons.IH [OF k(2)] m show ?case by simp
qed

lemma lower_bound_spec_le: "lower_bound_spec fs p \<le> length fs"
  by (simp add: lower_bound_spec_def keys_def) (metis length_map length_takeWhile_le)

lemma lower_bound_spec_not_less:
  assumes "lower_bound_spec fs p < length fs"
  shows "\<not> fst (fs ! lower_bound_spec fs p) < p"
proof -
  from assms have "lower_bound_spec fs p < length (keys fs)" by (simp add: keys_def)
  then have "\<not> (keys fs ! lower_bound_spec fs p) < p"
    unfolding lower_bound_spec_def by (rule nth_length_takeWhile)
  with assms show ?thesis by (simp add: keys_nth)
qed

lemma lower_bound_spec_less:
  assumes "i < lower_bound_spec fs p"
  shows "fst (fs ! i) < p"
proof -
  have l: "lower_bound_spec fs p \<le> length fs" by (rule lower_bound_spec_le)
  from assms have "takeWhile (\<lambda>k. k < p) (keys fs) ! i = keys fs ! i"
    unfolding lower_bound_spec_def by (rule takeWhile_nth)
  moreover from assms have "takeWhile (\<lambda>k. k < p) (keys fs) ! i \<in> set (takeWhile (\<lambda>k. k < p) (keys fs))"
    unfolding lower_bound_spec_def by (rule nth_mem)
  ultimately have "keys fs ! i < p" by (auto dest: set_takeWhileD)
  with assms l show ?thesis by (simp add: keys_nth)
qed

lemma predecessor_never_starts:
  assumes "0 < lower_bound_spec fs p"
  shows "\<not> prefix p (fst (fs ! (lower_bound_spec fs p - 1)))"
proof
  assume "prefix p (fst (fs ! (lower_bound_spec fs p - 1)))"
  then have "p \<le> fst (fs ! (lower_bound_spec fs p - 1))" by (rule prefix_imp_le)
  moreover from assms have "fst (fs ! (lower_bound_spec fs p - 1)) < p"
    by (intro lower_bound_spec_less) simp
  ultimately show False by simp
qed

lemma contains_iff: "contains fs p \<longleftrightarrow> p \<in> set (keys fs)"
  by (simp add: contains_def keys_def map_of_eq_None_iff)

lemma exists_lookup_spec:
  assumes "files_ok fs"
  shows "exists_lookup fs p \<longleftrightarrow>
           fs \<noteq> [] \<and> (p \<in> set (keys fs)
             \<or> (lower_bound_spec fs p < length fs \<and> prefix p (keys fs ! lower_bound_spec fs p))
             \<or> (0 < lower_bound_spec fs p \<and> prefix p (keys fs ! (lower_bound_spec fs p - 1))))"
proof -
  have le: "lower_bound_spec fs p \<le> length fs" by (rule lower_bound_spec_le)
  have pred: "0 < lower_bound_spec fs p \<Longrightarrow> \<not> prefix p (keys fs ! (lower_bound_spec fs p - 1))"
    using predecessor_never_starts [of fs p] le by (simp add: keys_nth)
  show ?thesis
    using le pred
    by (auto simp: exists_lookup_def Let_def lower_bound_eq_spec [OF assms] contains_iff
        startsWith_def keys_nth)
qed

lemma exists_lookup_iff_prefix:
  assumes "files_ok fs"
  shows "exists_lookup fs p \<longleftrightarrow> (\<exists>k \<in> set (keys fs). prefix p k)"
proof
  assume "exists_lookup fs p"
  then have "p \<in> set (keys fs) \<or> (lower_bound_spec fs p < length fs \<and> prefix p (keys fs ! lower_bound_spec fs p))"
    using predecessor_never_starts [of fs p] lower_bound_spec_le [of fs p]
    by (auto simp: exists_lookup_spec [OF assms] keys_nth)
  then show "\<exists>k \<in> set (keys fs). prefix p k"
  proof
    assume "p \<in> set (keys fs)" then show ?thesis by auto
  next
    assume a: "lower_bound_spec fs p < length fs \<and> prefix p (keys fs ! lower_bound_spec fs p)"
    then have "keys fs ! lower_bound_spec fs p \<in> set (keys fs)" by (simp add: keys_def)
    with a show ?thesis by blast
  qed
next
  assume "\<exists>k \<in> set (keys fs). prefix p k"
  then obtain j where j: "j < length fs" "prefix p (fst (fs ! j))"
    by (auto simp: keys_def in_set_conv_nth)
  let ?it = "lower_bound_spec fs p"
  have "\<not> j < ?it"
  proof
    assume "j < ?it"
    then have "fst (fs ! j) < p" by (rule lower_bound_spec_less)
    with prefix_imp_le [OF j(2)] show False by simp
  qed
  then have itj: "?it \<le> j" by simp
  with j have itl: "?it < length fs" by simp
  have "p \<le> fst (fs ! ?it)" using lower_bound_spec_not_less [OF itl] by simp
  moreover have "fst (fs ! ?it) \<le> fst (fs ! j)" using files_ok_mono [OF assms itj j(1)] .
  ultimately have "prefix p (fst (fs ! ?it))" using prefix_between [OF j(2)] by blast
  with itl j show "exists_lookup fs p"
    by (auto simp: exists_lookup_spec [OF assms] keys_nth)
qed

text \<open>
  C1. For every path \<open>p\<close>, \<open>exists\<close> first attempts the lazy initialization of the probe path
  (the directory of \<open>p\<close> when \<open>p\<close> has an extension, else \<open>p\<close>) with \<open>throw_on_error = false\<close>,
  and never throws. On the index \<open>idx\<close> it then has, it returns false when \<open>idx\<close> is empty,
  true when \<open>p\<close> is a key, and otherwise true exactly when the entry at the lower bound of
  \<open>p\<close> in path order, or its predecessor, has a key that starts with \<open>p\<close>.
\<close>

theorem exists_algorithm:
  assumes "files_ok (files (snd (initializeIfNeeded env s (probe_path p) (Some False))))"
  shows "exists env s p =
     (let s1 = snd (initializeIfNeeded env s (probe_path p) (Some False));
          idx = files s1;
          it = lower_bound_spec idx p
      in (Inr (idx \<noteq> [] \<and>
               (p \<in> set (keys idx)
                \<or> (it < length idx \<and> prefix p (keys idx ! it))
                \<or> (0 < it \<and> prefix p (keys idx ! (it - 1))))), s1))"
  using exists_lookup_spec [OF assms, of p] by (simp add: exists_path_eq Let_def)

theorem exists_algorithm_witness:
  "files_ok (files (snd (initializeIfNeeded (demo_env False) (demo_storage [])
                            (probe_path ''t/a.bin'') (Some False))))
   \<and> fst (exists (demo_env False) (demo_storage []) ''t/a.bin'') = Inr True"
proof -
  have h: "files_ok (files (snd (initializeIfNeeded (demo_env False) (demo_storage [])
                            (probe_path ''t/a.bin'') (Some False))))"
    by code_simp
  have v: "fst (let s1 = snd (initializeIfNeeded (demo_env False) (demo_storage []) (probe_path ''t/a.bin'') (Some False));
          idx = files s1;
          it = lower_bound_spec idx ''t/a.bin''
      in (Inr (idx \<noteq> [] \<and>
               (''t/a.bin'' \<in> set (keys idx)
                \<or> (it < length idx \<and> prefix ''t/a.bin'' (keys idx ! it))
                \<or> (0 < it \<and> prefix ''t/a.bin'' (keys idx ! (it - 1))))), s1)) = (Inr True :: exn + bool)"
    by code_simp
  from exists_algorithm [OF h] v h show ?thesis by simp
qed

text \<open>
  C9. There are an index and a path for which \<open>exists\<close> returns true although the path is
  neither a key nor the directory of any key: the check compares raw strings, so with
  \<^verbatim>\<open>table\<close> as the only key, \<^verbatim>\<open>tab\<close> exists.
\<close>

theorem exists_raw_prefix:
  "fst (exists (offline_env False)
          (demo_storage [(''table'', \<lparr>type = File, size_bytes = 0\<rparr>)]) ''tab'') = Inr True
   \<and> keys (files (snd (exists (offline_env False)
          (demo_storage [(''table'', \<lparr>type = File, size_bytes = 0\<rparr>)]) ''tab''))) = [''table'']
   \<and> ''tab'' \<noteq> ''table''
   \<and> \<not> prefix (''tab'' @ ''/'') ''table''"
  by code_simp


section \<open>Lazy initialization\<close>

text \<open>
  C2. When the path is already a key, \<open>initializeIfNeeded\<close> returns success and leaves the
  storage as it is, so the fetcher is not invoked. When the path is not a key and the fetcher
  fails with a message, it throws exactly when the caller passed \<open>throw_on_error = true\<close>, or
  passed nothing while the thread has a query context; the exception is \<open>NETWORK_ERROR\<close> with
  the message embedded. In every other failure case it logs at trace level and returns
  failure.
\<close>

theorem initializeIfNeeded_policy:
  "(map_of (files s) p \<noteq> None \<longrightarrow> initializeIfNeeded env s p throw_on_error = (Inr True, s))
   \<and> (map_of (files s) p = None \<longrightarrow>
        initialize env s (path_append (url s) p) = (Some message, fs') \<longrightarrow>
        (let s' = s\<lparr>files := fs',
                      initialize_calls := initialize_calls s @ [path_append (url s) p]\<rparr>
         in ((\<exists>e. fst (initializeIfNeeded env s p throw_on_error) = Inl e)
               \<longleftrightarrow> throw_on_error = Some True \<or> (throw_on_error = None \<and> query_context env))
            \<and> (if throw_on_error = Some True \<or> (throw_on_error = None \<and> query_context env)
                then initializeIfNeeded env s p throw_on_error =
                       (Inl (Exception NETWORK_ERROR
                               (''Cannot load disk metadata. Error: '' @ message)), s')
                else initializeIfNeeded env s p throw_on_error =
                       (Inr False,
                        s'\<lparr>trace_log := trace_log s' @ [Cannot_load_disk_metadata message]\<rparr>))))"
  by (cases throw_on_error) (auto simp: initializeIfNeeded_def Let_def)

theorem initializeIfNeeded_policy_witness:
  "map_of (files (demo_storage demo_files)) ''t'' \<noteq> None
   \<and> initializeIfNeeded (offline_env True) (demo_storage demo_files) ''t'' None
       = (Inr True, demo_storage demo_files)
   \<and> map_of (files (demo_storage [])) ''x'' = None
   \<and> initialize (offline_env True) (demo_storage []) (path_append (url (demo_storage [])) ''x'')
       = (Some ''Timeout'', [])
   \<and> fst (initializeIfNeeded (offline_env True) (demo_storage []) ''x'' None)
       = Inl (Exception NETWORK_ERROR ''Cannot load disk metadata. Error: Timeout'')
   \<and> fst (initializeIfNeeded (offline_env True) (demo_storage []) ''x'' (Some False)) = Inr False
   \<and> trace_log (snd (initializeIfNeeded (offline_env False) (demo_storage []) ''x'' None))
       = [Cannot_load_disk_metadata ''Timeout'']"
proof -
  have k: "map_of (files (demo_storage demo_files)) ''t'' \<noteq> None"
    by (simp add: demo_storage_def demo_files_def)
  have n: "map_of (files (demo_storage [])) ''x'' = None"
    by (simp add: demo_storage_def)
  have f: "initialize (offline_env b) (demo_storage []) (path_append (url (demo_storage [])) ''x'')
             = (Some ''Timeout'', [])" for b
    by (simp add: offline_env_def failing_initialize_def demo_storage_def)
  have q: "query_context (offline_env b) = b" for b
    by (simp add: offline_env_def demo_env_def)
  note a = initializeIfNeeded_policy [of "demo_storage demo_files" "''t''" "offline_env True" None]
  note b = initializeIfNeeded_policy [of "demo_storage []" "''x''" "offline_env True" None "''Timeout''" "[]"]
  note c = initializeIfNeeded_policy [of "demo_storage []" "''x''" "offline_env True" "Some False" "''Timeout''" "[]"]
  note d = initializeIfNeeded_policy [of "demo_storage []" "''x''" "offline_env False" None "''Timeout''" "[]"]
  from a k have 1: "initializeIfNeeded (offline_env True) (demo_storage demo_files) ''t'' None
       = (Inr True, demo_storage demo_files)" by blast
  from b n f [of True] q [of True] have 2: "fst (initializeIfNeeded (offline_env True) (demo_storage []) ''x'' None)
       = Inl (Exception NETWORK_ERROR ''Cannot load disk metadata. Error: Timeout'')"
    by (simp add: Let_def)
  from c n f [of True] have 3: "fst (initializeIfNeeded (offline_env True) (demo_storage []) ''x'' (Some False)) = Inr False"
    by (simp add: Let_def)
  from d n f [of False] q [of False] have 4: "trace_log (snd (initializeIfNeeded (offline_env False) (demo_storage []) ''x'' None))
       = [Cannot_load_disk_metadata ''Timeout'']"
    by (simp add: Let_def demo_storage_def)
  from k 1 n f [of True] 2 3 4 show ?thesis by blast
qed


section \<open>The transaction leaves the view alone\<close>

lemma run_call_state: "snd (run_call env c s) = s"
  by (cases c)
    (simp_all add: writeStringToFile_def setLastModified_def unlinkFile_def removeRecursive_def
      removeDirectory_def moveFile_def moveDirectory_def replaceFile_def setReadOnly_def
      createHardLink_def addBlobToMetadata_def unlinkMetadata_def createDirectory_def
      createDirectoryRecursive_def createEmptyMetadataFile_def createMetadataFile_def
      commit_def chmod_def)

lemma run_call_result:
  "fst (run_call env c s) =
     (if is_noop c then Inr ()
      else if is_chmod c
      then Inl (Exception NOT_IMPLEMENTED
                  ''chmod is not implemented for MetadataStorageFromStaticFilesWebServer'')
      else Inl (throwNotAllowed env))"
  by (cases c)
    (simp_all add: writeStringToFile_def setLastModified_def unlinkFile_def removeRecursive_def
      removeDirectory_def moveFile_def moveDirectory_def replaceFile_def setReadOnly_def
      createHardLink_def addBlobToMetadata_def unlinkMetadata_def createDirectory_def
      createDirectoryRecursive_def createEmptyMetadataFile_def createMetadataFile_def
      commit_def chmod_def)

text \<open>
  C3. Every write-side operation of the transaction either succeeds silently (the five
  no-ops) or raises a fixed error: what \<^verbatim>\<open>throwNotAllowed\<close> raises, or \<open>NOT_IMPLEMENTED\<close> for
  \<open>chmod\<close>. None changes the storage, so every operation of the view gives the same result
  after it as before.
\<close>

theorem transaction_purity:
  "fst (run_call env c s) =
     (if is_noop c then Inr ()
      else if is_chmod c
      then Inl (Exception NOT_IMPLEMENTED
                  ''chmod is not implemented for MetadataStorageFromStaticFilesWebServer'')
      else Inl (throwNotAllowed env))
   \<and> snd (run_call env c s) = s
   \<and> exists env (snd (run_call env c s)) p = exists env s p
   \<and> isFile env (snd (run_call env c s)) p = isFile env s p
   \<and> isDirectory env (snd (run_call env c s)) p = isDirectory env s p
   \<and> getFileSize env (snd (run_call env c s)) p = getFileSize env s p
   \<and> getStorageObjects env (snd (run_call env c s)) p = getStorageObjects env s p
   \<and> listDirectory env (snd (run_call env c s)) p = listDirectory env s p
   \<and> iterateDirectory env (snd (run_call env c s)) p = iterateDirectory env s p"
  by (simp only: run_call_state run_call_result simp_thms)


section \<open>Listing by prefix\<close>

lemma listDirectory_loop_filter:
  "listDirectory_loop fs p acc = acc @ filter (prefix p) (keys fs)"
  by (induction fs p acc rule: listDirectory_loop.induct) (simp_all add: keys_def)

text \<open>
  C8. \<open>listDirectory\<close> returns, in index order, every key that has the path as a prefix of
  its string: a scan of the whole subtree, so that listing the root of the example
  deployment returns the directory \<^verbatim>\<open>t\<close> and the file below it.
\<close>

theorem listDirectory_prefix_scan:
  "listDirectory env s p = (Inr (filter (prefix p) (keys (files s))), s)
   \<and> fst (listDirectory env (demo_storage demo_files) []) = Inr [''t'', ''t/a.bin'']"
  by (simp add: listDirectory_def listDirectory_loop_filter demo_storage_def demo_files_def keys_def)


text \<open>
  C10. \<open>listDirectory\<close> never raises and never fetches: it returns a list and the storage
  unchanged, with no further call of the fetcher, and its result depends on the files only.
  On a path that was never fetched it returns the empty list where \<open>iterateDirectory\<close>,
  in a query, raises.
\<close>

theorem listDirectory_reads_index_only:
  "(\<exists>r. listDirectory env s p = (Inr r, s))
   \<and> initialize_calls (snd (listDirectory env s p)) = initialize_calls s
   \<and> (files s = files s' \<longrightarrow> fst (listDirectory env s p) = fst (listDirectory env' s' p))"
  by (simp add: listDirectory_def)

theorem listDirectory_reads_index_only_witness:
  "files (demo_storage []) = files ((demo_storage [])\<lparr>trace_log := [Iterate_directory ''x'' 0]\<rparr>)
   \<and> fst (listDirectory (offline_env True) (demo_storage []) ''x'')
       = fst (listDirectory (demo_env False) ((demo_storage [])\<lparr>trace_log := [Iterate_directory ''x'' 0]\<rparr>) ''x'')
   \<and> listDirectory (offline_env True) (demo_storage []) ''x'' = (Inr [], demo_storage [])
   \<and> fst (iterateDirectory (offline_env True) (demo_storage []) ''x'')
       = Inl (Exception NETWORK_ERROR ''Cannot load disk metadata. Error: Timeout'')"
proof -
  have h: "files (demo_storage []) = files ((demo_storage [])\<lparr>trace_log := [Iterate_directory ''x'' 0]\<rparr>)"
    by simp
  note t = listDirectory_reads_index_only [of "offline_env True" "demo_storage []" "''x''"
      "(demo_storage [])\<lparr>trace_log := [Iterate_directory ''x'' 0]\<rparr>" "demo_env False"]
  from t h have 1: "fst (listDirectory (offline_env True) (demo_storage []) ''x'')
       = fst (listDirectory (demo_env False) ((demo_storage [])\<lparr>trace_log := [Iterate_directory ''x'' 0]\<rparr>) ''x'')"
    by blast
  have 2: "listDirectory (offline_env True) (demo_storage []) ''x'' = (Inr [], demo_storage [])"
    by code_simp
  have 3: "fst (iterateDirectory (offline_env True) (demo_storage []) ''x'')
       = Inl (Exception NETWORK_ERROR ''Cannot load disk metadata. Error: Timeout'')"
    by code_simp
  from h 1 2 3 show ?thesis by blast
qed


section \<open>Ancestors exist through their descendants\<close>

text \<open>
  C4. For every path \<open>p\<close> and every index: if some key of the index starts with \<open>p\<close> followed
  by a separator, then \<open>exists\<close> returns true. The index is an ordered map, and the lazy fetch
  that \<open>exists\<close> may trigger keeps the keys that are there (the index only grows).
\<close>

theorem exists_of_descendant:
  assumes "s1 = snd (initializeIfNeeded env s (probe_path p) (Some False))"
    and "files_ok (files s1)"
    and "set (keys (files s)) \<subseteq> set (keys (files s1))"
    and "k \<in> set (keys (files s))"
    and "prefix (p @ ''/'') k"
  shows "exists env s p = (Inr True, s1)"
proof -
  from assms(5) have "prefix p k" by (rule append_prefixD)
  moreover from assms(3,4) have "k \<in> set (keys (files s1))" by blast
  ultimately have "exists_lookup (files s1) p"
    using exists_lookup_iff_prefix [OF assms(2)] by blast
  with assms(1) show ?thesis by (simp add: exists_path_eq)
qed

theorem exists_of_descendant_witness:
  "fst (exists (offline_env False)
          (demo_storage [(''t/a.bin'', \<lparr>type = File, size_bytes = 100\<rparr>)]) ''t'') = Inr True
   \<and> prefix (''t'' @ ''/'') ''t/a.bin''"
proof -
  let ?s = "demo_storage [(''t/a.bin'', \<lparr>type = File, size_bytes = 100\<rparr>)]"
  let ?s1 = "snd (initializeIfNeeded (offline_env False) ?s (probe_path ''t'') (Some False))"
  have a: "files_ok (files ?s1)" by code_simp
  have b: "set (keys (files ?s)) \<subseteq> set (keys (files ?s1))" by code_simp
  have c: "''t/a.bin'' \<in> set (keys (files ?s))" by code_simp
  have d: "prefix (''t'' @ ''/'') ''t/a.bin''" by simp
  from exists_of_descendant [OF refl a b c d] d show ?thesis by simp
qed


section \<open>Classification\<close>

lemma initializeIfNeeded_key:
  "contains (files s) p \<Longrightarrow> initializeIfNeeded env s p t = (Inr True, s)"
  by (auto simp: initializeIfNeeded_def contains_def)

lemma exists_lookup_key: "contains fs p \<Longrightarrow> exists_lookup fs p"
  by (auto simp: exists_lookup_def contains_def)

lemma assertExists_key:
  assumes "contains (files s) p"
    and "s1 = snd (initializeIfNeeded env s (probe_path p) (Some False))"
    and "contains (files s1) p"
  shows "assertExists env s p = (Inr (), s1)"
  using assms
  by (simp add: assertExists_def initializeIfNeeded_key exists_path_eq exists_lookup_key)

text \<open>
  C5, as amended. For every path that is a key of the index, before the call and after the
  lazy probe of \<open>exists\<close>, exactly one of \<open>isFile\<close> and \<open>isDirectory\<close> returns true and the
  other returns false.
\<close>

theorem classification_exclusive:
  assumes "contains (files s) p"
    and "s1 = snd (initializeIfNeeded env s (probe_path p) (Some False))"
    and "map_of (files s1) p = Some fd"
  shows "isFile env s p = (Inr (type fd = File), s1)
         \<and> isDirectory env s p = (Inr (type fd = Directory), s1)
         \<and> (type fd = File) \<noteq> (type fd = Directory)"
proof -
  from assms(3) have "contains (files s1) p" by (simp add: contains_def)
  with assms have "assertExists env s p = (Inr (), s1)" by (intro assertExists_key)
  with assms(3) show ?thesis
    by (cases "type fd") (simp_all add: isFile_def isDirectory_def at_def)
qed

theorem classification_exclusive_witness:
  "isFile (demo_env True) (demo_storage demo_files) ''t/a.bin''
     = (Inr True, demo_storage demo_files)
   \<and> isDirectory (demo_env True) (demo_storage demo_files) ''t/a.bin''
     = (Inr False, demo_storage demo_files)"
proof -
  let ?s1 = "snd (initializeIfNeeded (demo_env True) (demo_storage demo_files)
                    (probe_path ''t/a.bin'') (Some False))"
  have a: "contains (files (demo_storage demo_files)) ''t/a.bin''" by code_simp
  have b: "map_of (files ?s1) ''t/a.bin'' = Some \<lparr>type = File, size_bytes = 100\<rparr>" by code_simp
  have c: "?s1 = demo_storage demo_files" by code_simp
  from classification_exclusive [OF a refl b] c show ?thesis by simp
qed


text \<open>
  C5 as stated fails for a path that exists only as an ancestor: with the example files the
  root exists, and \<open>isFile\<close> and \<open>isDirectory\<close> both raise \<^verbatim>\<open>std::out_of_range\<close> from the
  direct lookup instead of returning.
\<close>

theorem classification_counterexample:
  "fst (exists (demo_env True) (demo_storage demo_files) []) = Inr True
   \<and> fst (isFile (demo_env True) (demo_storage demo_files) []) = Inl std_out_of_range
   \<and> fst (isDirectory (demo_env True) (demo_storage demo_files) []) = Inl std_out_of_range"
  by code_simp


section \<open>Iterating a directory\<close>

lemma iterateDirectory_loop_filter:
  "iterateDirectory_loop env fs p acc =
     acc @ filter (\<lambda>x. path_eq (path_append (parentPath env x) []) (path_append p [])) (keys fs)"
  by (induction env fs p acc rule: iterateDirectory_loop.induct) (simp_all add: keys_def)

text \<open>
  C7, as amended. \<open>iterateDirectory\<close> first runs the lazy initialization with
  \<open>throw_on_error\<close> unset. When the path is not a key and the fetcher fails, it returns the
  empty iterator if the thread has no query context and raises \<open>NETWORK_ERROR\<close> if it has one.
  When the initialization succeeds it asserts existence, passing on what the assertion
  raises, and then yields, in index order, exactly the keys whose parent path, with a
  trailing separator, equals the path with a trailing separator.
\<close>

theorem iterateDirectory_listing:
  "(map_of (files s) p = None \<longrightarrow>
      initialize env s (path_append (url s) p) = (Some message, fs') \<longrightarrow>
      fst (iterateDirectory env s p) =
        (if query_context env
         then Inl (Exception NETWORK_ERROR (''Cannot load disk metadata. Error: '' @ message))
         else Inr []))
   \<and> (initializeIfNeeded env s p None = (Inr True, s1) \<longrightarrow>
        assertExists env s1 p = (Inl e, s2) \<longrightarrow>
        iterateDirectory env s p = (Inl e, s2))
   \<and> (initializeIfNeeded env s p None = (Inr True, s1) \<longrightarrow>
        assertExists env s1 p = (Inr (), s2) \<longrightarrow>
        fst (iterateDirectory env s p) =
          Inr (filter (\<lambda>x. path_eq (path_append (parentPath env x) []) (path_append p []))
                 (keys (files s2))))"
  by (auto simp: iterateDirectory_def initializeIfNeeded_def Let_def iterateDirectory_loop_filter
      split: prod.splits)

theorem iterateDirectory_listing_witness:
  "fst (iterateDirectory (offline_env False) (demo_storage []) ''x'') = Inr []
   \<and> fst (iterateDirectory (offline_env True) (demo_storage []) ''x'')
       = Inl (Exception NETWORK_ERROR ''Cannot load disk metadata. Error: Timeout'')
   \<and> fst (iterateDirectory (demo_env False) (demo_storage []) ''t'') = Inr [''t/a.bin'']
   \<and> fst (iterateDirectory ((demo_env True)\<lparr>initialize := (\<lambda>s u. (None, files s))\<rparr>) (demo_storage demo_files) ''u'')
       = Inl (Exception FILE_DOESNT_EXIST ''There is no path u'')"
proof -
  let ?quiet = "(demo_env True)\<lparr>initialize := (\<lambda>s u. (None, files s))\<rparr>"
  have n: "map_of (files (demo_storage [])) ''x'' = None" by code_simp
  have f: "initialize (offline_env b) (demo_storage []) (path_append (url (demo_storage [])) ''x'')
             = (Some ''Timeout'', [])" for b
    by (simp add: offline_env_def failing_initialize_def demo_storage_def)
  have q: "query_context (offline_env b) = b" for b
    by (simp add: offline_env_def demo_env_def)
  note t = iterateDirectory_listing
  from t [of "demo_storage []" "''x''" "offline_env False" "''Timeout''" "[]"] n f [of False] q [of False]
  have 1: "fst (iterateDirectory (offline_env False) (demo_storage []) ''x'') = Inr []"
    by simp
  from t [of "demo_storage []" "''x''" "offline_env True" "''Timeout''" "[]"] n f [of True] q [of True]
  have 2: "fst (iterateDirectory (offline_env True) (demo_storage []) ''x'')
       = Inl (Exception NETWORK_ERROR ''Cannot load disk metadata. Error: Timeout'')"
    by simp
  let ?s1 = "snd (initializeIfNeeded (demo_env False) (demo_storage []) ''t'' None)"
  have i: "initializeIfNeeded (demo_env False) (demo_storage []) ''t'' None = (Inr True, ?s1)"
    by code_simp
  have a: "assertExists (demo_env False) ?s1 ''t'' = (Inr (), ?s1)" by code_simp
  have v: "filter (\<lambda>x. path_eq (path_append (parentPath (demo_env False) x) []) (path_append ''t'' []))
                 (keys (files ?s1)) = [''t/a.bin'']" by code_simp
  from t [where env = "demo_env False" and s = "demo_storage []" and p = "''t''"
      and ?s1.0 = ?s1 and ?s2.0 = ?s1] i a v
  have 3: "fst (iterateDirectory (demo_env False) (demo_storage []) ''t'') = Inr [''t/a.bin'']"
    by simp
  let ?u1 = "snd (initializeIfNeeded ?quiet (demo_storage demo_files) ''u'' None)"
  let ?u2 = "snd (assertExists ?quiet ?u1 ''u'')"
  have i': "initializeIfNeeded ?quiet (demo_storage demo_files) ''u'' None
              = (Inr True, ?u1)"
    by code_simp
  have a': "assertExists ?quiet ?u1 ''u''
              = (Inl (Exception FILE_DOESNT_EXIST ''There is no path u''), ?u2)"
    by code_simp
  from t [where env = ?quiet and s = "demo_storage demo_files" and p = "''u''"
      and ?s1.0 = ?u1 and ?s2.0 = ?u2
      and e = "Exception FILE_DOESNT_EXIST ''There is no path u''"] i' a'
  have 4: "fst (iterateDirectory ?quiet (demo_storage demo_files) ''u'')
       = Inl (Exception FILE_DOESNT_EXIST ''There is no path u'')"
    by simp
  from 1 2 3 4 show ?thesis by blast
qed


text \<open>
  C7 as stated fails in a query: the fetch fails and \<open>iterateDirectory\<close> raises
  \<open>NETWORK_ERROR\<close> where the claim has it return an empty iterator without throwing.
\<close>

theorem iterateDirectory_counterexample:
  "fst (initialize (offline_env True) (demo_storage []) (path_append (url (demo_storage [])) ''x''))
     = Some ''Timeout''
   \<and> iterateDirectory (offline_env True) (demo_storage []) ''x''
       = (Inl (Exception NETWORK_ERROR ''Cannot load disk metadata. Error: Timeout''),
          (demo_storage [])\<lparr>initialize_calls := [''https://h/r/x'']\<rparr>)"
  by code_simp


section \<open>Facts about paths\<close>

lemma filename_append:
  "filename (a @ b) = (if \<forall>c\<in>set b. \<not> is_sep c then filename a @ b else filename b)"
  by (auto simp: filename_def takeWhile_append)

lemma dir_prefix_append:
  "dir_prefix (a @ b) = (if \<forall>c\<in>set b. \<not> is_sep c then dir_prefix a else a @ dir_prefix b)"
  by (auto simp: dir_prefix_def dropWhile_append)

lemma strip_trailing_seps_append:
  "strip_trailing_seps (a @ b) =
     (if \<forall>c\<in>set b. is_sep c then strip_trailing_seps a else a @ strip_trailing_seps b)"
  by (auto simp: strip_trailing_seps_def dropWhile_append)

lemma has_relative_path_iff: "has_relative_path p \<longleftrightarrow> (\<exists>c\<in>set p. \<not> is_sep c)"
  by (auto simp: has_relative_path_def)

lemma dir_prefix_filename: "dir_prefix p @ filename p = p"
  unfolding dir_prefix_def filename_def
  by (metis rev_append rev_rev_ident takeWhile_dropWhile_id)

lemma filename_no_sep: "c \<in> set (filename p) \<Longrightarrow> \<not> is_sep c"
  by (auto simp: filename_def dest: set_takeWhileD)

lemma dir_prefix_Nil_iff: "dir_prefix p = [] \<longleftrightarrow> (\<forall>c\<in>set p. \<not> is_sep c)"
  by (auto simp: dir_prefix_def)

lemma filename_Nil [simp]: "filename [] = []"
  by (simp add: filename_def)

lemma filename_snoc: "filename (w @ [c]) = (if is_sep c then [] else filename w @ [c])"
  by (simp add: filename_def)

lemma dir_prefix_snoc: "dir_prefix (w @ [c]) = (if is_sep c then w @ [c] else dir_prefix w)"
  by (simp add: dir_prefix_def)

lemma strip_snoc: "strip_trailing_seps (w @ [c]) = (if is_sep c then strip_trailing_seps w else w @ [c])"
  by (simp add: strip_trailing_seps_def)

lemma has_filename_iff: "has_filename p \<longleftrightarrow> p \<noteq> [] \<and> \<not> is_sep (last p)"
  by (cases p rule: rev_cases) (auto simp: has_filename_def filename_snoc)

lemma takeWhile_stop: "\<not> P y \<Longrightarrow> takeWhile P (xs @ y # ys) = takeWhile P xs"
  by (induction xs) auto

lemma filename_after_sep: "is_sep c \<Longrightarrow> filename (a @ c # b) = filename b"
  by (simp add: filename_def takeWhile_stop)

lemma filename_path_append: "filename (path_append u p) = filename p"
proof (cases "is_absolute p")
  case True
  then show ?thesis by (simp add: path_append_def)
next
  case False
  show ?thesis
  proof (cases "has_filename u")
    case True
    have "filename (u @ ''/'' @ p) = filename p"
      using filename_after_sep [of "CHR ''/''" u p] by (simp add: is_sep_def)
    with True False show ?thesis by (simp add: path_append_def)
  next
    case nf: False
    have "filename (u @ p) = filename p"
    proof (cases u rule: rev_cases)
      case Nil
      then show ?thesis by simp
    next
      case (snoc w c)
      with nf have "is_sep c" by (simp add: has_filename_iff)
      with snoc show ?thesis using filename_after_sep [of c w p] by simp
    qed
    with nf False show ?thesis by (simp add: path_append_def)
  qed
qed

lemma stem_path_append: "stem (path_append u p) = stem p"
  by (simp add: stem_def extension_def filename_path_append)

lemma extension_path_append: "extension (path_append u p) = extension p"
  by (simp add: extension_def filename_path_append)

lemma strip_prefix_nonempty:
  assumes "has_relative_path d"
  shows "strip_trailing_seps d \<noteq> [] \<and> hd (strip_trailing_seps d) = hd d
         \<and> \<not> is_sep (last (strip_trailing_seps d))"
  using assms
proof (induction d rule: rev_induct)
  case Nil
  then show ?case by (simp add: has_relative_path_iff)
next
  case (snoc c w)
  show ?case
  proof (cases "is_sep c")
    case True
    with snoc.prems have h: "has_relative_path w" by (auto simp: has_relative_path_iff)
    then have "w \<noteq> []" by (auto simp: has_relative_path_iff)
    with snoc.IH [OF h] True show ?thesis by (simp add: strip_snoc)
  next
    case False
    then show ?thesis by (simp add: strip_snoc)
  qed
qed

lemma is_absolute_parent_path:
  assumes "is_absolute p"
  shows "is_absolute (parent_path p)"
proof (cases "has_relative_path p")
  case False
  with assms show ?thesis by (simp add: parent_path_def)
next
  case True
  from assms obtain c cs where p: "p = c # cs" "is_sep c"
    by (auto simp: is_absolute_def split: list.splits)
  have "dir_prefix p \<noteq> []" using p by (auto simp: dir_prefix_Nil_iff)
  moreover have "dir_prefix p @ filename p = p" by (rule dir_prefix_filename)
  ultimately have hd: "hd (dir_prefix p) = c" using p by (metis hd_append2 list.sel(1))
  show ?thesis
  proof (cases "has_relative_path (dir_prefix p)")
    case False
    with True \<open>dir_prefix p \<noteq> []\<close> hd p show ?thesis
      by (cases "dir_prefix p") (auto simp: parent_path_def is_absolute_def)
  next
    case t: True
    from strip_prefix_nonempty [OF t] hd p True t show ?thesis
      by (cases "strip_trailing_seps (dir_prefix p)") (auto simp: parent_path_def is_absolute_def)
  qed
qed


lemma is_absolute_Nil [simp]: "\<not> is_absolute []"
  by (simp add: is_absolute_def)

lemma has_filename_Nil [simp]: "\<not> has_filename []"
  by (simp add: has_filename_def)

lemma strip_no_trailing: "p \<noteq> [] \<Longrightarrow> \<not> is_sep (last p) \<Longrightarrow> strip_trailing_seps p = p"
  by (cases p rule: rev_cases) (simp_all add: strip_snoc)

lemma parent_path_no_sep:
  assumes "dir_prefix p = []"
  shows "parent_path p = []"
proof (cases "has_relative_path p")
  case True
  with assms show ?thesis by (simp add: parent_path_def has_relative_path_def)
next
  case False
  from assms have "\<forall>c\<in>set p. \<not> is_sep c" by (simp add: dir_prefix_Nil_iff)
  with False have "p = []" by (cases p) (auto simp: has_relative_path_iff)
  then show ?thesis by (simp add: parent_path_def has_relative_path_def)
qed

lemma relative_dir_prefix:
  assumes "\<not> is_absolute p" "dir_prefix p \<noteq> []"
  shows "has_relative_path (dir_prefix p) \<and> has_relative_path p
         \<and> \<not> is_absolute (strip_trailing_seps (dir_prefix p))"
proof -
  from assms(2) have "p \<noteq> []" by (auto simp: dir_prefix_Nil_iff)
  with assms(1) have h: "\<not> is_sep (hd p)" by (cases p) (simp_all add: is_absolute_def)
  have "dir_prefix p @ filename p = p" by (rule dir_prefix_filename)
  with assms(2) have "hd (dir_prefix p) = hd p" by (metis hd_append2)
  with h assms(2) have r: "has_relative_path (dir_prefix p)"
    by (cases "dir_prefix p") (auto simp: has_relative_path_iff)
  from \<open>p \<noteq> []\<close> h have "has_relative_path p" by (cases p) (auto simp: has_relative_path_iff)
  moreover from strip_prefix_nonempty [OF r] \<open>hd (dir_prefix p) = hd p\<close> h
  have "\<not> is_absolute (strip_trailing_seps (dir_prefix p))"
    by (cases "strip_trailing_seps (dir_prefix p)") (auto simp: is_absolute_def)
  ultimately show ?thesis using r by simp
qed

lemma parent_path_join:
  assumes "\<not> is_absolute p" "dir_prefix p \<noteq> []"
  shows "parent_path (a @ p) = a @ parent_path p"
proof -
  from relative_dir_prefix [OF assms] have r: "has_relative_path (dir_prefix p)"
    and rp: "has_relative_path p" by simp_all
  from assms(2) have "\<not> (\<forall>c\<in>set p. \<not> is_sep c)" by (simp add: dir_prefix_Nil_iff)
  then have d: "dir_prefix (a @ p) = a @ dir_prefix p" by (auto simp: dir_prefix_append)
  from r have "\<not> (\<forall>c\<in>set (dir_prefix p). is_sep c)" by (simp add: has_relative_path_iff)
  then have s: "strip_trailing_seps (a @ dir_prefix p) = a @ strip_trailing_seps (dir_prefix p)"
    by (auto simp: strip_trailing_seps_append)
  from r rp have "has_relative_path (a @ p)" "has_relative_path (a @ dir_prefix p)"
    by (auto simp: has_relative_path_iff)
  with d s r rp show ?thesis by (simp add: parent_path_def Let_def)
qed

lemma remote_path_eq:
  assumes "\<not> suffix ''//'' u"
  shows "path_append (parent_path (path_append u p)) x
           = path_append (path_append u (parent_path p)) x"
proof (cases "is_absolute p")
  case True
  then have "is_absolute (parent_path p)" by (rule is_absolute_parent_path)
  with True show ?thesis by (simp add: path_append_def)
next
  case rel: False
  show ?thesis
  proof (cases "dir_prefix p = []")
    case False
    from relative_dir_prefix [OF rel False]
    have na: "\<not> is_absolute (parent_path p)" by (simp add: parent_path_def Let_def)
    show ?thesis
    proof (cases "has_filename u")
      case True
      have "parent_path ((u @ ''/'') @ p) = (u @ ''/'') @ parent_path p"
        using rel False by (rule parent_path_join)
      with True rel na show ?thesis by (simp add: path_append_def)
    next
      case nf: False
      have "parent_path (u @ p) = u @ parent_path p"
        using rel False by (rule parent_path_join)
      with nf rel na show ?thesis by (simp add: path_append_def)
    qed
  next
    case nosep: True
    then have pp: "parent_path p = []" by (rule parent_path_no_sep)
    from nosep have pn: "\<forall>c\<in>set p. \<not> is_sep c" by (simp add: dir_prefix_Nil_iff)
    show ?thesis
    proof (cases "has_filename u")
      case True
      then have u: "u \<noteq> []" "\<not> is_sep (last u)" by (simp_all add: has_filename_iff)
      then have ru: "has_relative_path u"
        using last_in_set [of u] by (auto simp: has_relative_path_iff)
      from pn have "dir_prefix ((u @ ''/'') @ p) = dir_prefix (u @ ''/'')"
        using dir_prefix_append [of "u @ ''/''" p] by simp
      moreover have "dir_prefix (u @ ''/'') = u @ ''/''"
        using dir_prefix_snoc [of u "CHR ''/''"] by (simp add: is_sep_def)
      ultimately have d: "dir_prefix ((u @ ''/'') @ p) = u @ ''/''" by simp
      have "strip_trailing_seps (u @ ''/'') = u"
        using u by (simp add: strip_snoc strip_no_trailing is_sep_def)
      with d ru have "parent_path ((u @ ''/'') @ p) = u"
        by (auto simp: parent_path_def Let_def has_relative_path_iff)
      moreover have "\<not> has_filename (u @ ''/'')" by (simp add: has_filename_iff is_sep_def)
      ultimately show ?thesis
        using True rel pp by (simp add: path_append_def)
    next
      case nf: False
      show ?thesis
      proof (cases u rule: rev_cases)
        case Nil
        with rel pp show ?thesis by (simp add: path_append_def)
      next
        case (snoc w c)
        with nf have c: "is_sep c" by (simp add: has_filename_iff)
        from pn have "dir_prefix (u @ p) = dir_prefix u"
          using dir_prefix_append [of u p] by simp
        with snoc c have d: "dir_prefix (u @ p) = u"
          by (simp add: dir_prefix_snoc)
        have j: "path_append u p = u @ p" "path_append u [] = u"
          using rel nf by (simp_all add: path_append_def)
        show ?thesis
        proof (cases "has_relative_path u")
          case False
          have "parent_path (u @ p) = u"
          proof (cases "has_relative_path (u @ p)")
            case True
            with d False show ?thesis by (simp add: parent_path_def Let_def)
          next
            case nr: False
            with pn have "p = []" by (cases p) (auto simp: has_relative_path_iff)
            with nr show ?thesis by (simp add: parent_path_def)
          qed
          with j pp show ?thesis by simp
        next
          case True
          then have rj: "has_relative_path (u @ p)" by (auto simp: has_relative_path_iff)
          from True snoc c have "w \<noteq> []" by (auto simp: has_relative_path_iff)
          moreover have "\<not> is_sep (last w)"
          proof
            assume "is_sep (last w)"
            with \<open>w \<noteq> []\<close> obtain w' where "w = w' @ ''/''"
              by (cases w rule: rev_cases) (auto simp: is_sep_def)
            with snoc c have "u = w' @ ''//''" by (simp add: is_sep_def)
            then have "suffix ''//'' u" by (simp add: suffix_def)
            with assms show False by simp
          qed
          ultimately have "strip_trailing_seps u = w" "has_filename w"
            using snoc c by (simp_all add: strip_snoc strip_no_trailing has_filename_iff)
          with d True rj have "parent_path (u @ p) = w" by (simp add: parent_path_def Let_def)
          with pp rel nf snoc c \<open>has_filename w\<close> show ?thesis
            by (simp add: path_append_def is_sep_def)
        qed
      qed
    qed
  qed
qed


section \<open>Object keys\<close>

lemma url_initializeIfNeeded: "url (snd (initializeIfNeeded env s p t)) = url s"
  by (auto simp: initializeIfNeeded_def Let_def split: prod.splits option.splits)

lemma url_exists_path: "url (snd (exists env s p)) = url s"
  by (simp add: exists_path_eq Let_def url_initializeIfNeeded)

lemma url_assertExists: "url (snd (assertExists env s p)) = url s"
proof -
  obtain r s1 where i: "initializeIfNeeded env s p None = (r, s1)"
    by (cases "initializeIfNeeded env s p None")
  then have u1: "url s1 = url s" using url_initializeIfNeeded [of env s p None] by simp
  obtain b s2 where e: "exists env s1 p = (Inr b, s2)"
    by (simp add: exists_path_eq Let_def)
  then have "url s2 = url s1" using url_exists_path [of env s1 p] by simp
  with u1 i e show ?thesis by (cases r) (auto simp: assertExists_def)
qed

lemma not_absolute_parent_path:
  assumes "\<not> is_absolute p"
  shows "\<not> is_absolute (parent_path p)"
proof (cases "dir_prefix p = []")
  case True
  then show ?thesis by (simp add: parent_path_no_sep)
next
  case False
  from relative_dir_prefix [OF assms False] show ?thesis
    by (simp add: parent_path_def Let_def)
qed

lemma prefix_path_append: "\<not> is_absolute q \<Longrightarrow> prefix p (path_append p q)"
  by (simp add: path_append_def)

lemma getStorageObjects_remote:
  assumes "assertExists env s p = (Inr (), s1)"
    and "map_of (files s1) p = Some fd"
    and "\<not> suffix ''//'' (url s)"
    and "remote = path_append (path_append (url s) (parent_path p))
                    (escapeForFileName env (stem p) @ extension p)"
  shows "getStorageObjects env s p =
           (if length (url s) \<le> length remote
            then Inr [\<lparr>key = drop (length (url s)) remote,
                       object_size = size_bytes fd, is_remote = True\<rparr>]
            else Inl std_out_of_range, s1)"
proof -
  from assms(1) have u: "url s1 = url s" using url_assertExists [of env s p] by simp
  have "path_append (parent_path (path_append (url s) p))
          (escapeForFileName env (stem (path_append (url s) p)) @ extension (path_append (url s) p))
        = remote"
    unfolding assms(4) stem_path_append extension_path_append
    using assms(3) by (rule remote_path_eq)
  with assms(1,2) u show ?thesis
    by (simp add: getStorageObjects_def Let_def substr_def at_def StoredObject_create_def)
qed

lemma remote_has_url_prefix:
  assumes "\<not> is_absolute p" "\<not> is_absolute x"
  shows "prefix u (path_append (path_append u (parent_path p)) x)"
proof -
  from assms(1) have "\<not> is_absolute (parent_path p)" by (rule not_absolute_parent_path)
  then have "prefix u (path_append u (parent_path p))" by (rule prefix_path_append)
  moreover from assms(2) have "prefix (path_append u (parent_path p))
                                  (path_append (path_append u (parent_path p)) x)"
    by (rule prefix_path_append)
  ultimately show ?thesis by (rule prefix_order.trans)
qed

lemma getStorageObjects_demo:
  assumes "\<not> is_absolute (escapeForFileName env ''a'')"
  shows "getStorageObjects env (demo_storage demo_files) ''t/a.bin'' =
           (Inr [\<lparr>key = ''/t/'' @ escapeForFileName env ''a'' @ ''.bin'',
                   object_size = 100, is_remote = True\<rparr>], demo_storage demo_files)"
proof -
  let ?s = "demo_storage demo_files"
  have c: "contains (files ?s) ''t/a.bin''" by code_simp
  have pk: "contains (files ?s) (probe_path ''t/a.bin'')" by code_simp
  have s1: "snd (initializeIfNeeded env ?s (probe_path ''t/a.bin'') (Some False)) = ?s"
    using pk by (simp add: initializeIfNeeded_key)
  have ae: "assertExists env ?s ''t/a.bin'' = (Inr (), ?s)"
    using c s1 by (simp add: assertExists_key)
  have at: "at (files ?s) ''t/a.bin'' = Inr \<lparr>type = File, size_bytes = 100\<rparr>" by code_simp
  have j: "path_append (url ?s) ''t/a.bin'' = ''https://h/r/t/a.bin''" by code_simp
  have pp: "parent_path ''https://h/r/t/a.bin'' = ''https://h/r/t''" by code_simp
  have st: "stem ''https://h/r/t/a.bin'' = ''a''" by code_simp
  have ex: "extension ''https://h/r/t/a.bin'' = ''.bin''" by code_simp
  have hf: "has_filename ''https://h/r/t''" by code_simp
  have l: "length (url ?s) = 11" by code_simp
  have na: "\<not> is_absolute (escapeForFileName env ''a'' @ ''.bin'')"
    using assms by (cases "escapeForFileName env ''a''") (simp_all add: is_absolute_def is_sep_def)
  have r: "path_append ''https://h/r/t'' (escapeForFileName env ''a'' @ ''.bin'')
             = ''https://h/r/t'' @ ''/'' @ escapeForFileName env ''a'' @ ''.bin''"
    using hf na by (simp add: path_append_def)
  have "substr (''https://h/r/t'' @ ''/'' @ escapeForFileName env ''a'' @ ''.bin'') 11
          = Some (''/t/'' @ escapeForFileName env ''a'' @ ''.bin'')"
    by (simp add: substr_def)
  with ae at j pp st ex r l show ?thesis
    by (simp add: getStorageObjects_def Let_def StoredObject_create_def)
qed

text \<open>
  C6, as amended. For every path \<open>p\<close> that passes the existence assertion and is a key of the
  index: if \<open>p\<close> is relative, the escaped name (the escaped stem followed by the extension) is
  relative, and the base URL does not end in a doubled separator, then \<open>getStorageObjects\<close>
  returns exactly one descriptor. Its key is
  \<^verbatim>\<open>base_url / dirname(p) / (escape(stem(p)) + extension(p))\<close> with the base URL, which is a
  prefix of it, stripped; its size is that of the entry of \<open>p\<close>; it is remote. In the example
  deployment the key of \<^verbatim>\<open>t/a.bin\<close> is \<^verbatim>\<open>/t/\<close>, the escaped \<^verbatim>\<open>a\<close>, and \<^verbatim>\<open>.bin\<close>, and the
  size is 100.
\<close>

theorem getStorageObjects_key:
  assumes "assertExists env s p = (Inr (), s1)"
    and "map_of (files s1) p = Some fd"
    and "\<not> is_absolute p"
    and "\<not> is_absolute (escapeForFileName env (stem p) @ extension p)"
    and "\<not> suffix ''//'' (url s)"
    and "remote = path_append (path_append (url s) (parent_path p))
                    (escapeForFileName env (stem p) @ extension p)"
  shows "prefix (url s) remote
         \<and> getStorageObjects env s p =
             (Inr [\<lparr>key = drop (length (url s)) remote,
                     object_size = size_bytes fd, is_remote = True\<rparr>], s1)
         \<and> (\<not> is_absolute (escapeForFileName env ''a'') \<longrightarrow>
              getStorageObjects env (demo_storage demo_files) ''t/a.bin'' =
                (Inr [\<lparr>key = ''/t/'' @ escapeForFileName env ''a'' @ ''.bin'',
                        object_size = 100, is_remote = True\<rparr>], demo_storage demo_files))"
proof -
  have pre: "prefix (url s) remote"
    unfolding assms(6) using assms(3,4) by (rule remote_has_url_prefix)
  then have "length (url s) \<le> length remote" by (rule prefix_length_le)
  with getStorageObjects_remote [OF assms(1,2,5,6)]
  have "getStorageObjects env s p =
          (Inr [\<lparr>key = drop (length (url s)) remote,
                  object_size = size_bytes fd, is_remote = True\<rparr>], s1)"
    by simp
  with pre getStorageObjects_demo [of env] show ?thesis by blast
qed

theorem getStorageObjects_key_witness:
  "fst (getStorageObjects (demo_env False) (demo_storage []) ''t/a.bin'')
     = Inr [\<lparr>key = ''/t/a.bin'', object_size = 100, is_remote = True\<rparr>]
   \<and> prefix ''https://h/r'' ''https://h/r/t/a.bin''
   \<and> getStorageObjects (demo_env False) (demo_storage demo_files) ''t/a.bin''
     = (Inr [\<lparr>key = ''/t/a.bin'', object_size = 100, is_remote = True\<rparr>],
        demo_storage demo_files)"
proof -
  let ?s1 = "snd (assertExists (demo_env False) (demo_storage []) ''t/a.bin'')"
  have a: "assertExists (demo_env False) (demo_storage []) ''t/a.bin'' = (Inr (), ?s1)"
    by code_simp
  have b: "map_of (files ?s1) ''t/a.bin'' = Some \<lparr>type = File, size_bytes = 100\<rparr>"
    by code_simp
  have c: "\<not> suffix ''//'' (url (demo_storage []))" by code_simp
  have d: "\<not> is_absolute (escapeForFileName (demo_env False) ''a'')" by code_simp
  have e1: "\<not> is_absolute ''t/a.bin''" by code_simp
  have e2: "\<not> is_absolute (escapeForFileName (demo_env False) (stem ''t/a.bin'')
                              @ extension ''t/a.bin'')"
    by code_simp
  have v: "path_append (path_append (url (demo_storage [])) (parent_path ''t/a.bin''))
                    (escapeForFileName (demo_env False) (stem ''t/a.bin'') @ extension ''t/a.bin'')
           = ''https://h/r/t/a.bin''" by code_simp
  have u: "url (demo_storage []) = ''https://h/r''" by code_simp
  have ea: "escapeForFileName (demo_env False) ''a'' = ''a''" by code_simp
  note t = getStorageObjects_key [OF a b e1 e2 c refl]
  from t v u have 1: "fst (getStorageObjects (demo_env False) (demo_storage []) ''t/a.bin'')
     = Inr [\<lparr>key = ''/t/a.bin'', object_size = 100, is_remote = True\<rparr>]"
    by simp
  from t v u have 2: "prefix ''https://h/r'' ''https://h/r/t/a.bin''" by simp
  from t d ea have 3: "getStorageObjects (demo_env False) (demo_storage demo_files) ''t/a.bin''
     = (Inr [\<lparr>key = ''/t/a.bin'', object_size = 100, is_remote = True\<rparr>],
        demo_storage demo_files)"
    by simp
  from 1 2 3 show ?thesis by blast
qed

text \<open>
  C6 as stated fails for two keys that pass the existence assertion. Under the base URL
  \<^verbatim>\<open>https://h/r//\<close> the key of \<^verbatim>\<open>a.bin\<close> is \<^verbatim>\<open>.bin\<close>, where the formula of the claim gives
  \<^verbatim>\<open>a.bin\<close>: \<^verbatim>\<open>parent_path\<close> drops both trailing separators of the URL, and the key is cut by
  the length of the URL. For the absolute key \<^verbatim>\<open>/t/a.bin\<close> the joined path is the key alone,
  shorter than the URL, and \<^verbatim>\<open>substr\<close> raises \<^verbatim>\<open>std::out_of_range\<close>.
\<close>

theorem getStorageObjects_counterexample:
  "fst (assertExists (demo_env True)
          ((demo_storage [(''a.bin'', \<lparr>type = File, size_bytes = 100\<rparr>)])\<lparr>url := ''https://h/r//''\<rparr>)
          ''a.bin'') = Inr ()
   \<and> fst (getStorageObjects (demo_env True)
          ((demo_storage [(''a.bin'', \<lparr>type = File, size_bytes = 100\<rparr>)])\<lparr>url := ''https://h/r//''\<rparr>)
          ''a.bin'')
       = Inr [\<lparr>key = ''.bin'', object_size = 100, is_remote = True\<rparr>]
   \<and> drop (length ''https://h/r//'')
         (path_append (path_append ''https://h/r//'' (parent_path ''a.bin''))
            (escapeForFileName (demo_env True) (stem ''a.bin'') @ extension ''a.bin''))
       = ''a.bin''
   \<and> fst (assertExists (demo_env True)
          (demo_storage [(''/t/a.bin'', \<lparr>type = File, size_bytes = 100\<rparr>)]) ''/t/a.bin'') = Inr ()
   \<and> fst (getStorageObjects (demo_env True)
          (demo_storage [(''/t/a.bin'', \<lparr>type = File, size_bytes = 100\<rparr>)]) ''/t/a.bin'')
       = Inl std_out_of_range"
  by code_simp

end
